theory Spec2Isabelle
  imports Main "HOL-Library.Char_ord" "HOL-Library.List_Lexorder" "HOL-Library.Multiset"
begin

section \<open>Schema (schema.ts)\<close>

text \<open>
  The four labels of the Postgres enum \<open>tag_category\<close>. The labels are Japanese words;
  they are written here as their UTF-8 bytes.
\<close>

datatype TagCategory = Classification | Angle | Part | Free

definition label_classification :: string where
  "label_classification = [CHR 0xE5, CHR 0x88, CHR 0x86, CHR 0xE9, CHR 0xA1, CHR 0x9E]"

definition label_angle :: string where
  "label_angle = [CHR 0xE8, CHR 0xA7, CHR 0x92, CHR 0xE5, CHR 0xBA, CHR 0xA6]"

definition label_part :: string where
  "label_part = [CHR 0xE3, CHR 0x83, CHR 0x91, CHR 0xE3, CHR 0x83, CHR 0xBC, CHR 0xE3, CHR 0x83, CHR 0x84]"

definition label_free :: string where
  "label_free = [CHR 0xE8, CHR 0x87, CHR 0xAA, CHR 0xE7, CHR 0x94, CHR 0xB1]"

definition tagCategoryEnum :: "(string \<times> TagCategory) list" where
  "tagCategoryEnum =
     [(label_classification, Classification), (label_angle, Angle), (label_part, Part),
      (label_free, Free)]"

text \<open>
  Rows of the six tables. Identifiers (uuid and varchar columns) are strings, timestamps
  are integers. Every \<open>createdAt\<close> is filled by \<open>defaultNow()\<close>: no insert of the storage
  layer supplies one. Identifiers range over the values of their column type: text
  that is not a uuid never names a row, and what the store does with it is not modelled.
  Of \<open>users\<close> the two timestamp columns, which no operation below reads, are left out.
\<close>

record user =
  u_id :: string
  u_email :: "string option"
  u_firstName :: "string option"
  u_lastName :: "string option"
  u_profileImageUrl :: "string option"

record tag =
  t_id :: string
  t_name :: string
  t_category :: TagCategory
  t_createdAt :: int

record post =
  p_id :: string
  p_userId :: string
  p_imageUrl :: string
  p_caption :: "string option"
  p_createdAt :: int

record postTag =
  pt_postId :: string
  pt_tagId :: string

record favorite =
  f_userId :: string
  f_postId :: string
  f_createdAt :: int

record userExcludeTag =
  x_userId :: string
  x_tagId :: string
  x_createdAt :: int

text \<open>
  The database: one list of rows per table, in insertion order.
  The constraints the schema declares are
  \<^item> primary keys \<open>users.id\<close>, \<open>tags.id\<close>, \<open>posts.id\<close>;
  \<^item> foreign keys \<open>posts.userId\<close>, \<open>postTags.postId\<close> (cascade), \<open>postTags.tagId\<close>
    (restrict), \<open>favorites.userId\<close>, \<open>favorites.postId\<close> (cascade),
    \<open>userExcludeTags.userId\<close>, \<open>userExcludeTags.tagId\<close> (cascade).
  The second argument of \<open>pgTable\<close> for \<open>tags\<close>, \<open>postTags\<close>, \<open>favorites\<close> and
  \<open>userExcludeTags\<close> declares \<open>index(...)\<close> on column pairs: plain indexes, which
  constrain nothing (a unique one is \<open>uniqueIndex\<close>, a composite key is \<open>primaryKey\<close>).
\<close>

record db =
  users :: "user list"
  tags :: "tag list"
  posts :: "post list"
  postTags :: "postTag list"
  favorites :: "favorite list"
  userExcludeTags :: "userExcludeTag list"

datatype error =
  UniqueViolation
  | ForeignKeyViolation
  | InvalidEnumValue string

section \<open>The select builder (storage.ts, getPosts and getPost)\<close>

text \<open>One result row of the joined select: the post and its nullable joined columns.\<close>

record row =
  r_post :: post
  r_user :: "user option"
  r_postTag :: "postTag option"
  r_tag :: "tag option"
  r_favorite :: "favorite option"

text \<open>SQL's left join: every left row once per matching right row, or once with NULL.\<close>

definition leftJoin ::
  "'r list \<Rightarrow> 's list \<Rightarrow> ('r \<Rightarrow> 's \<Rightarrow> bool) \<Rightarrow> ('r \<Rightarrow> 's option \<Rightarrow> 'q) \<Rightarrow> 'q list" where
  "leftJoin rs ss on mk =
     concat (map (\<lambda>r. case filter (on r) ss of
                          [] \<Rightarrow> [mk r None]
                        | ms \<Rightarrow> map (\<lambda>s. mk r (Some s)) ms) rs)"

definition from_posts :: "db \<Rightarrow> row list" where
  "from_posts d =
     map (\<lambda>p. \<lparr>r_post = p, r_user = None, r_postTag = None, r_tag = None, r_favorite = None\<rparr>)
       (posts d)"

definition join_users :: "db \<Rightarrow> row list \<Rightarrow> row list" where
  "join_users d rs =
     leftJoin rs (users d) (\<lambda>r u. p_userId (r_post r) = u_id u) (\<lambda>r u. r\<lparr>r_user := u\<rparr>)"

definition join_postTags :: "db \<Rightarrow> row list \<Rightarrow> row list" where
  "join_postTags d rs =
     leftJoin rs (postTags d) (\<lambda>r pt. p_id (r_post r) = pt_postId pt)
       (\<lambda>r pt. r\<lparr>r_postTag := pt\<rparr>)"

definition join_tags :: "db \<Rightarrow> row list \<Rightarrow> row list" where
  "join_tags d rs =
     leftJoin rs (tags d)
       (\<lambda>r t. case r_postTag r of None \<Rightarrow> False | Some pt \<Rightarrow> pt_tagId pt = t_id t)
       (\<lambda>r t. r\<lparr>r_tag := t\<rparr>)"

definition join_favorites :: "db \<Rightarrow> string \<Rightarrow> row list \<Rightarrow> row list" where
  "join_favorites d userId rs =
     leftJoin rs (favorites d)
       (\<lambda>r f. f_postId f = p_id (r_post r) \<and> f_userId f = userId)
       (\<lambda>r f. r\<lparr>r_favorite := f\<rparr>)"

text \<open>
  The query under construction. drizzle-orm's select builder keeps its clauses in one
  config object: \<open>leftJoin\<close> appends to the list of joins, while \<open>where\<close> assigns the
  single \<open>where\<close> slot (a select statement has one WHERE clause), so a second call of
  \<open>where\<close> replaces the condition of the first. The builder's types forbid the second
  call; the source silences them with \<open>@ts-ignore\<close> at each \<open>query = query.where(...)\<close>.
\<close>

record select_query =
  q_rows :: "row list"
  q_where :: "(row \<Rightarrow> bool) option"

definition set_where :: "select_query \<Rightarrow> (row \<Rightarrow> bool) \<Rightarrow> select_query" where
  "set_where q c = q\<lparr>q_where := Some c\<rparr>"

definition where_rows :: "select_query \<Rightarrow> row list" where
  "where_rows q = (case q_where q of None \<Rightarrow> q_rows q | Some c \<Rightarrow> filter c (q_rows q))"

text \<open>
  \<open>.orderBy(desc(posts.createdAt)).limit(limit).offset(offset)\<close>: the rows that pass the
  WHERE clause, newest post first, then \<open>offset\<close> rows skipped and at most \<open>limit\<close> rows
  kept. SQL leaves the order of rows with equal timestamps open; the model keeps the
  order of the join.
\<close>

definition run_page :: "select_query \<Rightarrow> nat \<Rightarrow> nat \<Rightarrow> row list" where
  "run_page q limit offset =
     take limit (drop offset (sort_key (\<lambda>r. - p_createdAt (r_post r)) (where_rows q)))"

text \<open>JavaScript truthiness of \<open>userId?: string\<close> and of \<open>ids && ids.length > 0\<close>.\<close>

definition truthy :: "string option \<Rightarrow> bool" where
  "truthy s = (case s of None \<Rightarrow> False | Some v \<Rightarrow> v \<noteq> [])"

definition given :: "string list option \<Rightarrow> bool" where
  "given ids = (case ids of None \<Rightarrow> False | Some v \<Rightarrow> v \<noteq> [])"

text \<open>The subqueries of the three filters.\<close>

definition matching_postTags :: "db \<Rightarrow> string list \<Rightarrow> postTag list" where
  "matching_postTags d tagIds = filter (\<lambda>pt. pt_tagId pt \<in> set tagIds) (postTags d)"

definition postsWithAllTags :: "db \<Rightarrow> string list \<Rightarrow> string list" where
  "postsWithAllTags d tagIds =
     filter (\<lambda>pid. length (filter (\<lambda>pt. pt_postId pt = pid) (matching_postTags d tagIds))
                     = length tagIds)
       (remdups (map pt_postId (matching_postTags d tagIds)))"

definition postsWithExcludedTags :: "db \<Rightarrow> string list \<Rightarrow> string list" where
  "postsWithExcludedTags d excludeTagIds = map pt_postId (matching_postTags d excludeTagIds)"

definition excludedTagIds :: "db \<Rightarrow> string \<Rightarrow> string list" where
  "excludedTagIds d userId = map x_tagId (filter (\<lambda>x. x_userId x = userId) (userExcludeTags d))"

definition postsWithUserExcludedTags :: "db \<Rightarrow> string \<Rightarrow> string list" where
  "postsWithUserExcludedTags d userId =
     map pt_postId (matching_postTags d (excludedTagIds d userId))"

text \<open>
  The response type \<open>PostWithTags\<close> and the grouping loop over the result rows.
  \<open>postsMap\<close> is a JavaScript \<open>Map\<close>: its values come out in insertion order.
\<close>

record PostWithTags =
  pw_post :: post
  pw_user :: "user option"
  pw_tags :: "tag list"
  pw_isFavorited :: bool

definition isFavoritedExpr :: "string option \<Rightarrow> row \<Rightarrow> bool" where
  "isFavoritedExpr userId r = (if truthy userId then r_favorite r \<noteq> None else False)"

definition push_tag :: "tag \<Rightarrow> PostWithTags \<Rightarrow> PostWithTags" where
  "push_tag t e =
     (if list_ex (\<lambda>t'. t_id t' = t_id t) (pw_tags e) then e else e\<lparr>pw_tags := pw_tags e @ [t]\<rparr>)"

definition group_step :: "string option \<Rightarrow> PostWithTags list \<Rightarrow> row \<Rightarrow> PostWithTags list" where
  "group_step userId postsMap result =
     (let postId = p_id (r_post result);
          m = (if list_ex (\<lambda>e. p_id (pw_post e) = postId) postsMap then postsMap
               else postsMap @ [\<lparr>pw_post = r_post result, pw_user = r_user result,
                                 pw_tags = [], pw_isFavorited = isFavoritedExpr userId result\<rparr>])
      in case r_tag result of
           None \<Rightarrow> m
         | Some t \<Rightarrow> map (\<lambda>e. if p_id (pw_post e) = postId then push_tag t e else e) m)"

definition group_rows :: "string option \<Rightarrow> row list \<Rightarrow> PostWithTags list" where
  "group_rows userId results = foldl (group_step userId) [] results"

definition base_query :: "db \<Rightarrow> string option \<Rightarrow> select_query" where
  "base_query d userId =
     (let rs = join_tags d (join_postTags d (join_users d (from_posts d)))
      in \<lparr>q_rows = (case userId of
                      None \<Rightarrow> rs
                    | Some u \<Rightarrow> if truthy userId then join_favorites d u rs else rs),
          q_where = None\<rparr>)"

definition getPosts ::
  "db \<Rightarrow> nat \<Rightarrow> nat \<Rightarrow> string list option \<Rightarrow> string option \<Rightarrow> string list option
     \<Rightarrow> PostWithTags list" where
  "getPosts d limit offset tagIds userId excludeTagIds =
     (let q0 = base_query d userId;
          q1 = (case tagIds of
                  None \<Rightarrow> q0
                | Some ids \<Rightarrow>
                    if given tagIds
                    then set_where q0 (\<lambda>r. p_id (r_post r) \<in> set (postsWithAllTags d ids))
                    else q0);
          q2 = (case excludeTagIds of
                  None \<Rightarrow> q1
                | Some ids \<Rightarrow>
                    if given excludeTagIds
                    then set_where q1 (\<lambda>r. p_id (r_post r) \<notin> set (postsWithExcludedTags d ids))
                    else q1);
          q3 = (case userId of
                  None \<Rightarrow> q2
                | Some u \<Rightarrow>
                    if truthy userId
                    then set_where q2 (\<lambda>r. p_id (r_post r) \<notin> set (postsWithUserExcludedTags d u))
                    else q2)
      in group_rows userId (run_page q3 limit offset))"

text \<open>
  The single-post read: the same joins, one \<open>where(eq(posts.id, id))\<close>, no ordering and no
  page; \<open>undefined\<close> when no row comes back, otherwise the first row's post with the tags
  of all rows.
\<close>

definition getPost :: "db \<Rightarrow> string \<Rightarrow> string option \<Rightarrow> PostWithTags option" where
  "getPost d ident userId =
     (let results = where_rows (set_where (base_query d userId) (\<lambda>r. p_id (r_post r) = ident))
      in case results of
           [] \<Rightarrow> None
         | r0 # _ \<Rightarrow>
             Some (foldl (\<lambda>postWithTags r. case r_tag r of
                                               None \<Rightarrow> postWithTags
                                             | Some t \<Rightarrow> push_tag t postWithTags)
                     \<lparr>pw_post = r_post r0, pw_user = r_user r0, pw_tags = [],
                      pw_isFavorited = isFavoritedExpr userId r0\<rparr>
                     results))"

section \<open>Tag operations (storage.ts)\<close>

text \<open>
  \<open>getTagsByCategory\<close> compares the enum column with the caller's value. The route hands
  over the query parameter unchecked (\<open>category as any\<close>), so the value is any string; the
  store converts it to the enum type and rejects text that is not one of its labels.
  \<open>ORDER BY name\<close> is modelled by the lexicographic order of the bytes.
\<close>

definition getTagsByCategory :: "db \<Rightarrow> string \<Rightarrow> error + tag list" where
  "getTagsByCategory d category =
     (case map_of tagCategoryEnum category of
        None \<Rightarrow> Inl (InvalidEnumValue category)
      | Some c \<Rightarrow> Inr (sort_key t_name (filter (\<lambda>t. t_category t = c) (tags d))))"

text \<open>
  \<open>createTag\<close> inserts one row; \<open>gen_random_uuid()\<close> and \<open>defaultNow()\<close> are the
  arguments \<open>newId\<close> and \<open>now\<close>. The only constraint on \<open>tags\<close> is its primary key.
\<close>

definition createTag :: "db \<Rightarrow> string \<Rightarrow> TagCategory \<Rightarrow> string \<Rightarrow> int \<Rightarrow> (error + tag) \<times> db" where
  "createTag d name category newId now =
     (if newId \<in> set (map t_id (tags d)) then (Inl UniqueViolation, d)
      else (let newTag = \<lparr>t_id = newId, t_name = name, t_category = category, t_createdAt = now\<rparr>
            in (Inr newTag, d\<lparr>tags := tags d @ [newTag]\<rparr>)))"

definition select_tag :: "db \<Rightarrow> string \<Rightarrow> TagCategory \<Rightarrow> tag option" where
  "select_tag d name category = find (\<lambda>t. t_name t = name \<and> t_category t = category) (tags d)"

definition getOrCreateTag ::
  "db \<Rightarrow> string \<Rightarrow> TagCategory \<Rightarrow> string \<Rightarrow> int \<Rightarrow> (error + tag) \<times> db" where
  "getOrCreateTag d name category newId now =
     (case select_tag d name category of
        Some existingTag \<Rightarrow> (Inr existingTag, d)
      | None \<Rightarrow> createTag d name category newId now)"

text \<open>
  Concurrent callers. An \<open>async\<close> function runs until its next \<open>await\<close>, so a call of
  \<open>getOrCreateTag\<close> is two atomic steps, the select and (when nothing was found) the
  insert, and other calls may run between them. A schedule names the call that takes
  the next step.
\<close>

datatype call_state = Selecting | Inserting | Returned "error + tag"

record goc_call =
  c_name :: string
  c_category :: TagCategory
  c_newId :: string
  c_now :: int
  c_state :: call_state

definition goc_step :: "db \<Rightarrow> goc_call \<Rightarrow> goc_call \<times> db" where
  "goc_step d c =
     (case c_state c of
        Selecting \<Rightarrow>
          (case select_tag d (c_name c) (c_category c) of
             Some existingTag \<Rightarrow> (c\<lparr>c_state := Returned (Inr existingTag)\<rparr>, d)
           | None \<Rightarrow> (c\<lparr>c_state := Inserting\<rparr>, d))
      | Inserting \<Rightarrow>
          (case createTag d (c_name c) (c_category c) (c_newId c) (c_now c) of
             (res, d') \<Rightarrow> (c\<lparr>c_state := Returned res\<rparr>, d'))
      | Returned res \<Rightarrow> (c, d))"

fun run_schedule :: "nat list \<Rightarrow> goc_call list \<times> db \<Rightarrow> goc_call list \<times> db" where
  "run_schedule [] s = s"
| "run_schedule (i # sched) (cs, d) =
     (if i < length cs
      then (case goc_step d (cs ! i) of (c', d') \<Rightarrow> run_schedule sched (cs[i := c'], d'))
      else run_schedule sched (cs, d))"

definition all_returned :: "goc_call list \<Rightarrow> bool" where
  "all_returned cs = list_all (\<lambda>c. case c_state c of Returned res \<Rightarrow> True | _ \<Rightarrow> False) cs"

definition tag_rows :: "db \<Rightarrow> string \<Rightarrow> TagCategory \<Rightarrow> tag list" where
  "tag_rows d name category = filter (\<lambda>t. t_name t = name \<and> t_category t = category) (tags d)"

definition validatePostTags :: "db \<Rightarrow> string list \<Rightarrow> bool" where
  "validatePostTags d tagIds =
     (if length tagIds = 0 then False
      else (let tagResults = filter (\<lambda>t. t_id t \<in> set tagIds) (tags d)
            in if length tagResults \<noteq> length tagIds then False
               else list_ex (\<lambda>t. t_category t = Classification) tagResults))"

section \<open>Post operations (storage.ts)\<close>

record InsertPost =
  ip_userId :: string
  ip_imageUrl :: string
  ip_caption :: "string option"

definition insert_post :: "db \<Rightarrow> post \<Rightarrow> error + db" where
  "insert_post d p =
     (if p_id p \<in> set (map p_id (posts d)) then Inl UniqueViolation
      else if p_userId p \<in> set (map u_id (users d)) then Inr (d\<lparr>posts := posts d @ [p]\<rparr>)
      else Inl ForeignKeyViolation)"

definition insert_postTags :: "db \<Rightarrow> postTag list \<Rightarrow> error + db" where
  "insert_postTags d pts =
     (if list_all (\<lambda>pt. pt_postId pt \<in> set (map p_id (posts d))
                        \<and> pt_tagId pt \<in> set (map t_id (tags d))) pts
      then Inr (d\<lparr>postTags := postTags d @ pts\<rparr>)
      else Inl ForeignKeyViolation)"

text \<open>
  \<open>db.transaction\<close>: the callback runs on the transaction's view of the database; when
  it throws, the transaction is rolled back and the error is thrown on.
\<close>

definition transaction :: "(db \<Rightarrow> (error + 'a) \<times> db) \<Rightarrow> db \<Rightarrow> (error + 'a) \<times> db" where
  "transaction body d =
     (case body d of
        (Inl e, tx) \<Rightarrow> (Inl e, d)
      | (Inr v, tx) \<Rightarrow> (Inr v, tx))"

definition createPost_body ::
  "InsertPost \<Rightarrow> string list \<Rightarrow> string \<Rightarrow> int \<Rightarrow> db \<Rightarrow> (error + post) \<times> db" where
  "createPost_body post tagIds newId now tx =
     (let newPost = \<lparr>p_id = newId, p_userId = ip_userId post, p_imageUrl = ip_imageUrl post,
                     p_caption = ip_caption post, p_createdAt = now\<rparr>
      in case insert_post tx newPost of
           Inl e \<Rightarrow> (Inl e, tx)
         | Inr tx1 \<Rightarrow>
             if length tagIds > 0
             then (case insert_postTags tx1
                          (map (\<lambda>tagId. \<lparr>pt_postId = p_id newPost, pt_tagId = tagId\<rparr>) tagIds) of
                     Inl e \<Rightarrow> (Inl e, tx1)
                   | Inr tx2 \<Rightarrow> (Inr newPost, tx2))
             else (Inr newPost, tx1))"

definition createPost ::
  "db \<Rightarrow> InsertPost \<Rightarrow> string list \<Rightarrow> string \<Rightarrow> int \<Rightarrow> (error + post) \<times> db" where
  "createPost d post tagIds newId now = transaction (createPost_body post tagIds newId now) d"

text \<open>
  \<open>deletePost\<close>: one DELETE with both conditions, returning the deleted rows. The
  foreign keys of \<open>postTags\<close> and \<open>favorites\<close> cascade.
\<close>

definition deletePost :: "db \<Rightarrow> string \<Rightarrow> string \<Rightarrow> bool \<times> db" where
  "deletePost d ident userId =
     (let result = filter (\<lambda>p. p_id p = ident \<and> p_userId p = userId) (posts d);
          gone = map p_id result
      in (length result > 0,
          d\<lparr>posts := filter (\<lambda>p. \<not> (p_id p = ident \<and> p_userId p = userId)) (posts d),
            postTags := filter (\<lambda>pt. pt_postId pt \<notin> set gone) (postTags d),
            favorites := filter (\<lambda>f. f_postId f \<notin> set gone) (favorites d)\<rparr>))"

section \<open>Favorite operations (storage.ts)\<close>

text \<open>
  \<open>INSERT ... ON CONFLICT DO NOTHING\<close> skips the row when it collides with a row of the
  table on one of the table's unique constraints, and inserts it otherwise. A unique
  constraint is given by the relation "same key". The schema declares none for
  \<open>favorites\<close>: \<open>favorites_pk\<close> is a plain \<open>index\<close>.
\<close>

definition conflicts :: "('a \<Rightarrow> 'a \<Rightarrow> bool) list \<Rightarrow> 'a list \<Rightarrow> 'a \<Rightarrow> bool" where
  "conflicts uniq rows r = list_ex (\<lambda>same. list_ex (same r) rows) uniq"

definition favorites_unique :: "(favorite \<Rightarrow> favorite \<Rightarrow> bool) list" where
  "favorites_unique = []"

definition addFavorite :: "db \<Rightarrow> string \<Rightarrow> string \<Rightarrow> int \<Rightarrow> (error + unit) \<times> db" where
  "addFavorite d userId postId now =
     (let r = \<lparr>f_userId = userId, f_postId = postId, f_createdAt = now\<rparr>
      in if conflicts favorites_unique (favorites d) r then (Inr (), d)
         else if userId \<in> set (map u_id (users d)) \<and> postId \<in> set (map p_id (posts d))
         then (Inr (), d\<lparr>favorites := favorites d @ [r]\<rparr>)
         else (Inl ForeignKeyViolation, d))"

definition favorite_rows :: "db \<Rightarrow> string \<Rightarrow> string \<Rightarrow> favorite list" where
  "favorite_rows d userId postId =
     filter (\<lambda>f. f_userId f = userId \<and> f_postId f = postId) (favorites d)"

section \<open>Measures used to state the properties\<close>

text \<open>The key of a response entry in \<open>postsMap\<close>: the id of its post.\<close>

abbreviation post_key :: "PostWithTags \<Rightarrow> string" where
  "post_key e \<equiv> p_id (pw_post e)"

text \<open>The number of tags attached over a whole response.\<close>

definition total_tags :: "PostWithTags list \<Rightarrow> nat" where
  "total_tags m = sum_list (map (\<lambda>e. length (pw_tags e)) m)"

text \<open>
  The \<open>count()\<close> of the include filter's group for one post: its association rows whose
  tag is in the list.
\<close>

definition match_count :: "db \<Rightarrow> string list \<Rightarrow> string \<Rightarrow> nat" where
  "match_count d tagIds pid =
     length (filter (\<lambda>pt. pt_postId pt = pid) (matching_postTags d tagIds))"

section \<open>Example data\<close>

definition user1 :: user where
  "user1 = \<lparr>u_id = ''u1'', u_email = None, u_firstName = None, u_lastName = None,
             u_profileImageUrl = None\<rparr>"

definition user2 :: user where
  "user2 = \<lparr>u_id = ''u2'', u_email = None, u_firstName = None, u_lastName = None,
             u_profileImageUrl = None\<rparr>"

definition tagA :: tag where
  "tagA = \<lparr>t_id = ''a'', t_name = ''dog'', t_category = Classification, t_createdAt = 0\<rparr>"

definition tagB :: tag where
  "tagB = \<lparr>t_id = ''b'', t_name = ''front'', t_category = Angle, t_createdAt = 0\<rparr>"

definition tagC :: tag where
  "tagC = \<lparr>t_id = ''c'', t_name = ''cat'', t_category = Classification, t_createdAt = 0\<rparr>"

definition post1 :: post where
  "post1 = \<lparr>p_id = ''p1'', p_userId = ''u1'', p_imageUrl = ''i1'', p_caption = None,
             p_createdAt = 10\<rparr>"

definition post2 :: post where
  "post2 = \<lparr>p_id = ''p2'', p_userId = ''u1'', p_imageUrl = ''i2'', p_caption = None,
             p_createdAt = 20\<rparr>"

text \<open>
  Two users, three tags and two posts of \<open>u1\<close>: the older post \<open>p1\<close> carries tag \<open>a\<close>,
  the newer post \<open>p2\<close> carries tags \<open>a\<close> and \<open>b\<close>.
\<close>

definition db_feed :: db where
  "db_feed =
     \<lparr>users = [user1, user2], tags = [tagA, tagB, tagC], posts = [post1, post2],
      postTags = [\<lparr>pt_postId = ''p1'', pt_tagId = ''a''\<rparr>,
                  \<lparr>pt_postId = ''p2'', pt_tagId = ''a''\<rparr>,
                  \<lparr>pt_postId = ''p2'', pt_tagId = ''b''\<rparr>],
      favorites = [], userExcludeTags = []\<rparr>"

text \<open>The same, with tag \<open>a\<close> in the stored exclusions of viewer \<open>u2\<close>.\<close>

definition db_zoned :: db where
  "db_zoned =
     db_feed\<lparr>userExcludeTags := [\<lparr>x_userId = ''u2'', x_tagId = ''a'', x_createdAt = 30\<rparr>]\<rparr>"

definition db_empty :: db where
  "db_empty = \<lparr>users = [], tags = [], posts = [], postTags = [], favorites = [],
                userExcludeTags = []\<rparr>"

text \<open>Two callers of \<open>getOrCreateTag\<close> for the same name and category.\<close>

definition two_calls :: "goc_call list" where
  "two_calls =
     [\<lparr>c_name = ''dog'', c_category = Classification, c_newId = ''t1'', c_now = 1,
       c_state = Selecting\<rparr>,
      \<lparr>c_name = ''dog'', c_category = Classification, c_newId = ''t2'', c_now = 2,
       c_state = Selecting\<rparr>]"

definition new_post :: InsertPost where
  "new_post = \<lparr>ip_userId = ''u2'', ip_imageUrl = ''i3'', ip_caption = None\<rparr>"

section \<open>Joins\<close>

lemma set_case_rows:
  "set (case xs of [] \<Rightarrow> [a] | y # ys \<Rightarrow> map g (y # ys)) = (if xs = [] then {a} else g ` set xs)"
  by (cases xs) auto

lemma set_leftJoin:
  "set (leftJoin rs ss on mk) =
     (\<Union>r \<in> set rs. if filter (on r) ss = [] then {mk r None}
                      else (\<lambda>s. mk r (Some s)) ` set (filter (on r) ss))"
  unfolding leftJoin_def set_concat set_map image_image set_case_rows ..

text \<open>A left join keeps every left row: whatever the join leaves alone has the same image.\<close>

lemma leftJoin_image:
  assumes "\<And>r s. f (mk r s) = f r"
  shows "f ` set (leftJoin rs ss on mk) = f ` set rs"
proof -
  have "f ` (if filter (on r) ss = [] then {mk r None}
             else (\<lambda>s. mk r (Some s)) ` set (filter (on r) ss)) = {f r}" for r
  proof (cases "filter (on r) ss")
    case Nil
    then show ?thesis using assms by simp
  next
    case (Cons a as)
    then have "set (filter (on r) ss) \<noteq> {}" by simp
    then show ?thesis using assms Cons
      by (simp add: image_image image_constant_conv del: filter_empty_conv filter_False set_filter)
  qed
  then show ?thesis
    unfolding set_leftJoin image_UN by auto
qed

lemma base_query_posts: "r_post ` set (q_rows (base_query d userId)) = set (posts d)"
proof -
  have a: "r_post ` set (from_posts d) = set (posts d)"
    by (force simp: from_posts_def)
  have b: "r_post ` set (join_tags d (join_postTags d (join_users d (from_posts d)))) = set (posts d)"
    unfolding join_tags_def join_postTags_def join_users_def
    by (simp add: leftJoin_image a)
  show ?thesis
    unfolding base_query_def Let_def join_favorites_def
    by (simp add: leftJoin_image b split: option.splits)
qed

lemma base_query_userExcludeTags:
  "base_query (d\<lparr>userExcludeTags := xs\<rparr>) userId = base_query d userId"
  by (simp add: base_query_def join_tags_def join_postTags_def join_users_def
      join_favorites_def from_posts_def Let_def split: option.splits)

lemma where_rows_set_where: "where_rows (set_where q c) = filter c (q_rows q)"
  by (simp add: where_rows_def set_where_def)

lemma q_rows_set_where: "q_rows (set_where q c) = q_rows q"
  by (simp add: set_where_def)

lemma length_run_page: "length (run_page q limit offset) \<le> limit"
  by (simp add: run_page_def)

lemma set_run_page: "set (run_page q limit offset) \<subseteq> set (where_rows q)"
proof -
  have "set (run_page q limit offset)
          \<subseteq> set (sort_key (\<lambda>r. - p_createdAt (r_post r)) (where_rows q))"
    unfolding run_page_def by (meson set_take_subset set_drop_subset subset_trans)
  then show ?thesis by simp
qed

lemma run_page_all:
  assumes "length (q_rows q) \<le> limit"
  shows "set (run_page (set_where q c) limit 0) = {r \<in> set (q_rows q). c r}"
proof -
  have "length (filter c (q_rows q)) \<le> limit"
    using assms length_filter_le[of c "q_rows q"] by linarith
  then show ?thesis
    by (simp add: run_page_def where_rows_set_where)
qed

section \<open>The grouping loop\<close>

lemma push_tag_post: "pw_post (push_tag t e) = pw_post e"
  by (simp add: push_tag_def)

lemma push_tag_length: "length (pw_tags (push_tag t e)) \<le> Suc (length (pw_tags e))"
  by (simp add: push_tag_def)

lemma foldl_push_tag_post:
  "pw_post (foldl (\<lambda>postWithTags r. case r_tag r of None \<Rightarrow> postWithTags
                                        | Some t \<Rightarrow> push_tag t postWithTags) e rs) = pw_post e"
  by (induction rs arbitrary: e) (auto simp: push_tag_def split: option.splits)

lemma group_step_keys:
  "map post_key (group_step userId m r) =
     (if p_id (r_post r) \<in> set (map post_key m) then map post_key m
      else map post_key m @ [p_id (r_post r)])"
proof -
  have ex: "list_ex (\<lambda>e. post_key e = k) m \<longleftrightarrow> k \<in> set (map post_key m)" for k
    by (force simp: list_ex_iff)
  have upd: "map post_key (map (\<lambda>e. if post_key e = k then push_tag t e else e) m') = map post_key m'"
    for k t m'
    by (induction m') (simp_all add: push_tag_post)
  show ?thesis
    by (simp add: group_step_def Let_def ex upd push_tag_post split: option.splits)
qed

lemma group_step_key_set:
  "post_key ` set (group_step userId m r) = insert (p_id (r_post r)) (post_key ` set m)"
proof -
  have "post_key ` set (group_step userId m r) = set (map post_key (group_step userId m r))"
    by simp
  also have "\<dots> = insert (p_id (r_post r)) (post_key ` set m)"
    unfolding group_step_keys by auto
  finally show ?thesis .
qed

lemma group_step_posts:
  "pw_post ` set (group_step userId m r) \<subseteq> pw_post ` set m \<union> {r_post r}"
  by (auto simp: group_step_def Let_def push_tag_post split: option.splits if_splits)

lemma foldl_group_step_keys:
  "distinct (map post_key m) \<Longrightarrow> distinct (map post_key (foldl (group_step userId) m rs))"
  by (induction rs arbitrary: m) (simp_all add: group_step_keys)

lemma foldl_group_step_key_set:
  "post_key ` set (foldl (group_step userId) m rs)
     = post_key ` set m \<union> (\<lambda>r. p_id (r_post r)) ` set rs"
  by (induction rs arbitrary: m) (simp_all add: group_step_key_set)

lemma foldl_group_step_posts:
  "pw_post ` set (foldl (group_step userId) m rs) \<subseteq> pw_post ` set m \<union> r_post ` set rs"
proof (induction rs arbitrary: m)
  case Nil
  then show ?case by simp
next
  case (Cons r rs)
  have "pw_post ` set (foldl (group_step userId) (group_step userId m r) rs)
          \<subseteq> pw_post ` set (group_step userId m r) \<union> r_post ` set rs"
    by (rule Cons.IH)
  also have "\<dots> \<subseteq> (pw_post ` set m \<union> {r_post r}) \<union> r_post ` set rs"
    using group_step_posts[of userId m r] by blast
  finally show ?case by auto
qed

text \<open>Within one response a post appears once, and only posts of the page's rows appear.\<close>

lemma group_rows_distinct: "distinct (map post_key (group_rows userId rs))"
  by (simp add: group_rows_def foldl_group_step_keys)

lemma group_rows_keys:
  "post_key ` set (group_rows userId rs) = (\<lambda>r. p_id (r_post r)) ` set rs"
  by (simp add: group_rows_def foldl_group_step_key_set)

lemma group_rows_posts: "pw_post ` set (group_rows userId rs) \<subseteq> r_post ` set rs"
  using foldl_group_step_posts[of userId "[]" rs] by (simp add: group_rows_def)

lemma group_rows_run_page_where:
  assumes "e \<in> set (group_rows userId (run_page (set_where q c) limit offset))"
  shows "\<exists>r \<in> set (q_rows q). c r \<and> r_post r = pw_post e"
proof -
  from assms group_rows_posts[of userId "run_page (set_where q c) limit offset"]
  obtain r where "r \<in> set (run_page (set_where q c) limit offset)" "r_post r = pw_post e"
    by (metis (no_types, lifting) image_iff subsetD)
  with set_run_page[of "set_where q c" limit offset] show ?thesis
    by (auto simp: where_rows_set_where)
qed

section \<open>Pagination of the feed\<close>

lemma total_tags_update:
  "distinct (map post_key m) \<Longrightarrow>
     total_tags (map (\<lambda>e. if post_key e = k then push_tag t e else e) m) \<le> Suc (total_tags m)"
proof (induction m)
  case Nil
  then show ?case by (simp add: total_tags_def)
next
  case (Cons e m)
  show ?case
  proof (cases "post_key e = k")
    case True
    with Cons.prems have "k \<notin> set (map post_key m)" by auto
    then have "map (\<lambda>e. if post_key e = k then push_tag t e else e) m = m"
      by (induction m) auto
    with True show ?thesis
      using push_tag_length[of t e] by (simp add: total_tags_def)
  next
    case False
    with Cons show ?thesis by (simp add: total_tags_def)
  qed
qed

lemma total_tags_group_step:
  assumes "distinct (map post_key m)"
  shows "total_tags (group_step userId m r) \<le> Suc (total_tags m)"
proof -
  let ?new = "\<lparr>pw_post = r_post r, pw_user = r_user r, pw_tags = [],
               pw_isFavorited = isFavoritedExpr userId r\<rparr>"
  let ?m = "if list_ex (\<lambda>e. post_key e = p_id (r_post r)) m then m else m @ [?new]"
  have d: "distinct (map post_key ?m)" using assms by (auto simp: list_ex_iff)
  have t: "total_tags ?m = total_tags m" by (simp add: total_tags_def)
  show ?thesis
  proof (cases "r_tag r")
    case None
    then have "group_step userId m r = ?m" by (simp add: group_step_def Let_def)
    with t show ?thesis by simp
  next
    case (Some tg)
    then have "group_step userId m r
                 = map (\<lambda>e. if post_key e = p_id (r_post r) then push_tag tg e else e) ?m"
      by (simp add: group_step_def Let_def)
    with total_tags_update[OF d, of "p_id (r_post r)" tg] t show ?thesis by simp
  qed
qed

lemma total_tags_foldl:
  "distinct (map post_key m) \<Longrightarrow>
     total_tags (foldl (group_step userId) m rs) \<le> total_tags m + length rs"
proof (induction rs arbitrary: m)
  case Nil
  then show ?case by simp
next
  case (Cons r rs)
  have "distinct (map post_key (group_step userId m r))"
    using Cons.prems by (simp add: group_step_keys)
  from Cons.IH[OF this] total_tags_group_step[OF Cons.prems, of userId r]
  show ?case by simp
qed

lemma total_tags_group_rows: "total_tags (group_rows userId rs) \<le> length rs"
  using total_tags_foldl[of "[]" userId rs] by (simp add: group_rows_def total_tags_def)

text \<open>
  Whatever the filters and whatever the order of the rows, a response carries at most
  \<open>limit\<close> tags in all: each of the at most \<open>limit\<close> rows of the page adds at most one.
\<close>

lemma getPosts_total_tags:
  "total_tags (getPosts d limit offset tagIds userId excludeTagIds) \<le> limit"
proof -
  obtain q where "getPosts d limit offset tagIds userId excludeTagIds
                    = group_rows userId (run_page q limit offset)"
    by (simp add: getPosts_def Let_def)
  then show ?thesis
    using total_tags_group_rows[of userId "run_page q limit offset"]
      length_run_page[of q limit offset]
    by simp
qed

lemma getPosts_distinct:
  "distinct (map post_key (getPosts d limit offset tagIds userId excludeTagIds))"
  by (simp add: getPosts_def Let_def group_rows_distinct)

lemmas feed_defs = getPosts_def base_query_def group_rows_def group_step_def run_page_def
  where_rows_def join_tags_def join_postTags_def join_users_def join_favorites_def
  from_posts_def leftJoin_def isFavoritedExpr_def truthy_def given_def push_tag_def
  set_where_def postsWithAllTags_def postsWithExcludedTags_def postsWithUserExcludedTags_def
  excludedTagIds_def matching_postTags_def

lemmas example_defs = user1_def user2_def tagA_def tagB_def tagC_def post1_def post2_def
  db_feed_def

text \<open>
  C1. The claim: \<open>limit\<close> and \<open>offset\<close> count distinct posts after filtering, and a post
  with N tags comes back once, with exactly its N tags, wherever the page boundary falls.
  The source applies \<open>.limit(limit).offset(offset)\<close> to the joined rows, one row per pair
  of a post and a tag, and groups the rows of the page afterwards. On \<open>db_feed\<close> the newest
  post \<open>p2\<close> has two tags: with \<open>limit = 1\<close> the page at offset 0 returns it with tag \<open>a\<close>
  alone and the page at offset 1 returns it again with tag \<open>b\<close> alone; with \<open>limit = 2\<close>
  the page holds \<open>p2\<close> only, although two posts exist.
\<close>

theorem getPosts_limit_counts_join_rows:
  "map (\<lambda>e. (post_key e, map t_id (pw_tags e))) (getPosts db_feed 1 0 None None None)
     = [(''p2'', [''a''])]
   \<and> map (\<lambda>e. (post_key e, map t_id (pw_tags e))) (getPosts db_feed 1 1 None None None)
     = [(''p2'', [''b''])]
   \<and> map (\<lambda>e. (post_key e, map t_id (pw_tags e))) (getPosts db_feed 2 0 None None None)
     = [(''p2'', [''a'', ''b''])]
   \<and> map pt_tagId (filter (\<lambda>pt. pt_postId pt = ''p2'') (postTags db_feed)) = [''a'', ''b'']"
  by (simp add: feed_defs example_defs)

section \<open>The filters of the feed\<close>

text \<open>
  Which condition the query runs with. Each of the three \<open>if\<close> blocks of \<open>getPosts\<close>
  calls \<open>where\<close> on the same builder, so the last block that runs decides: the viewer's
  stored exclusions when \<open>userId\<close> is truthy, otherwise the request's exclusions when
  given, otherwise the include filter.
\<close>

lemma getPosts_viewer_rows:
  assumes "u \<noteq> []"
  shows "getPosts d limit offset tagIds (Some u) excludeTagIds =
           group_rows (Some u)
             (run_page (set_where (base_query d (Some u))
                          (\<lambda>r. p_id (r_post r) \<notin> set (postsWithUserExcludedTags d u)))
                limit offset)"
  using assms
  by (simp add: getPosts_def Let_def truthy_def run_page_def where_rows_set_where
      q_rows_set_where split: option.splits)

lemma getPosts_request_rows:
  assumes "\<not> truthy userId" "ex \<noteq> []"
  shows "getPosts d limit offset tagIds userId (Some ex) =
           group_rows userId
             (run_page (set_where (base_query d userId)
                          (\<lambda>r. p_id (r_post r) \<notin> set (postsWithExcludedTags d ex)))
                limit offset)"
  using assms
  by (cases userId)
    (auto simp: getPosts_def Let_def given_def run_page_def where_rows_set_where
      q_rows_set_where split: option.splits)

lemma getPosts_include_rows:
  assumes "\<not> truthy userId" "\<not> given excludeTagIds" "ids \<noteq> []"
  shows "getPosts d limit offset (Some ids) userId excludeTagIds =
           group_rows userId
             (run_page (set_where (base_query d userId)
                          (\<lambda>r. p_id (r_post r) \<in> set (postsWithAllTags d ids)))
                limit offset)"
  using assms
  by (cases userId) (auto simp: getPosts_def Let_def given_def split: option.splits)

text \<open>For a signed-in viewer the stored exclusions always apply.\<close>

lemma getPosts_viewer_exclusion:
  assumes "u \<noteq> []" "e \<in> set (getPosts d limit offset tagIds (Some u) excludeTagIds)"
    and "pt \<in> set (postTags d)" "pt_postId pt = post_key e"
  shows "pt_tagId pt \<notin> set (excludedTagIds d u)"
proof -
  from group_rows_run_page_where[OF assms(2)[unfolded getPosts_viewer_rows[OF assms(1)]]]
  obtain r :: row where "p_id (r_post r) \<notin> set (postsWithUserExcludedTags d u)"
    "r_post r = pw_post e"
    by blast
  with assms(3,4) show ?thesis
    by (force simp: postsWithUserExcludedTags_def matching_postTags_def)
qed

text \<open>Without a viewer the request's exclusions apply.\<close>

lemma getPosts_request_exclusion:
  assumes "\<not> truthy userId" "ex \<noteq> []"
    and "e \<in> set (getPosts d limit offset tagIds userId (Some ex))"
    and "pt \<in> set (postTags d)" "pt_postId pt = post_key e"
  shows "pt_tagId pt \<notin> set ex"
proof -
  from group_rows_run_page_where[OF assms(3)[unfolded getPosts_request_rows[OF assms(1,2)]]]
  obtain r :: row where "p_id (r_post r) \<notin> set (postsWithExcludedTags d ex)"
    "r_post r = pw_post e"
    by blast
  with assms(4,5) show ?thesis
    by (force simp: postsWithExcludedTags_def matching_postTags_def)
qed

lemma postsWithAllTags_iff:
  assumes "ids \<noteq> []"
  shows "pid \<in> set (postsWithAllTags d ids) \<longleftrightarrow> match_count d ids pid = length ids"
proof -
  have "pid \<in> pt_postId ` set (matching_postTags d ids)" if "match_count d ids pid = length ids"
  proof -
    from that assms have "filter (\<lambda>pt. pt_postId pt = pid) (matching_postTags d ids) \<noteq> []"
      unfolding match_count_def by (metis length_0_conv)
    then show ?thesis by (auto simp: filter_empty_conv)
  qed
  then show ?thesis
    by (auto simp: postsWithAllTags_def match_count_def)
qed

text \<open>
  Without a viewer and without request exclusions the include filter applies: every
  returned post has as many matching association rows as the list has entries, and a
  page that takes in all rows returns exactly the posts that do.
\<close>

lemma getPosts_include_count:
  assumes "\<not> truthy userId" "\<not> given excludeTagIds" "ids \<noteq> []"
    and "e \<in> set (getPosts d limit offset (Some ids) userId excludeTagIds)"
  shows "match_count d ids (post_key e) = length ids"
proof -
  from group_rows_run_page_where[OF assms(4)[unfolded getPosts_include_rows[OF assms(1,2,3)]]]
  obtain r :: row where "p_id (r_post r) \<in> set (postsWithAllTags d ids)" "r_post r = pw_post e"
    by blast
  then show ?thesis by (simp add: postsWithAllTags_iff[OF assms(3)])
qed

lemma getPosts_include_full_page:
  assumes "\<not> truthy userId" "\<not> given excludeTagIds" "ids \<noteq> []"
    and "length (q_rows (base_query d userId)) \<le> limit"
  shows "post_key ` set (getPosts d limit 0 (Some ids) userId excludeTagIds) =
           {p_id p |p. p \<in> set (posts d) \<and> match_count d ids (p_id p) = length ids}"
proof -
  have "post_key ` set (getPosts d limit 0 (Some ids) userId excludeTagIds) =
          (\<lambda>r. p_id (r_post r)) ` {r \<in> set (q_rows (base_query d userId)).
                                       p_id (r_post r) \<in> set (postsWithAllTags d ids)}"
    unfolding getPosts_include_rows[OF assms(1,2,3)] group_rows_keys run_page_all[OF assms(4)] ..
  also have "\<dots> = {p_id p |p. p \<in> r_post ` set (q_rows (base_query d userId))
                            \<and> match_count d ids (p_id p) = length ids}"
    by (auto simp: postsWithAllTags_iff[OF assms(3)])
  finally show ?thesis by (simp add: base_query_posts)
qed

text \<open>
  The count is the AND of the tags when neither the list nor the association table
  repeats an entry.
\<close>

lemma match_count_all_tags:
  assumes "distinct ids" "distinct (postTags d)"
  shows "match_count d ids pid = length ids \<longleftrightarrow>
           set ids \<subseteq> pt_tagId ` {pt \<in> set (postTags d). pt_postId pt = pid}"
proof -
  let ?R = "filter (\<lambda>pt. pt_postId pt = pid) (matching_postTags d ids)"
  let ?T = "pt_tagId ` {pt \<in> set (postTags d). pt_postId pt = pid}"
  have dR: "distinct ?R" using assms(2) by (simp add: matching_postTags_def)
  have inj: "inj_on pt_tagId (set ?R)"
    by (rule inj_onI) (auto simp: matching_postTags_def)
  have "distinct (map pt_tagId ?R)" using dR inj by (simp add: distinct_map)
  then have "length ?R = card (set (map pt_tagId ?R))"
    by (metis distinct_card length_map)
  also have "set (map pt_tagId ?R) = set ids \<inter> ?T"
    by (auto simp: matching_postTags_def)
  finally have len: "match_count d ids pid = card (set ids \<inter> ?T)"
    by (simp add: match_count_def)
  have "card (set ids \<inter> ?T) = card (set ids) \<longleftrightarrow> set ids \<subseteq> ?T"
  proof
    assume "card (set ids \<inter> ?T) = card (set ids)"
    then have "set ids \<inter> ?T = set ids"
      by (intro card_subset_eq) auto
    then show "set ids \<subseteq> ?T" by blast
  next
    assume "set ids \<subseteq> ?T"
    then have "set ids \<inter> ?T = set ids" by blast
    then show "card (set ids \<inter> ?T) = card (set ids)" by simp
  qed
  with len assms(1) show ?thesis by (simp add: distinct_card)
qed

text \<open>A list that names one tag twice asks for two rows; a post with one such row fails.\<close>

lemma match_count_duplicate_ids:
  assumes "length (filter (\<lambda>pt. pt_postId pt = pid \<and> pt_tagId pt = a) (postTags d)) = 1"
  shows "pid \<notin> set (postsWithAllTags d [a, a])"
proof -
  have "filter (\<lambda>pt. pt_postId pt = pid) (matching_postTags d [a, a])
          = filter (\<lambda>pt. pt_postId pt = pid \<and> pt_tagId pt = a) (postTags d)"
    by (simp add: matching_postTags_def conj_commute)
  with assms have "match_count d [a, a] pid = 1" by (simp add: match_count_def)
  then show ?thesis by (simp add: postsWithAllTags_iff)
qed

text \<open>
  C2. The claim: for every non-empty \<open>includeTagIds\<close> the result holds exactly the posts
  whose count of matching association rows equals the length of the list.
  \<open>getPosts_include_count\<close> and \<open>getPosts_include_full_page\<close> show this for a call
  without a viewer and without request exclusions. With a viewer the condition of the
  include filter is replaced by the later call of \<open>where\<close>: on \<open>db_feed\<close> the signed-in
  viewer \<open>u2\<close>, who has stored no exclusions, asks for tag \<open>b\<close> and receives both posts,
  although \<open>p1\<close> has no association row for \<open>b\<close>; the same request without a viewer
  returns \<open>p2\<close> alone.
\<close>

theorem getPosts_include_filter_replaced:
  "map post_key (getPosts db_feed 20 0 (Some [''b'']) (Some ''u2'') None) = [''p2'', ''p1'']
   \<and> match_count db_feed [''b''] ''p1'' = 0
   \<and> map post_key (getPosts db_feed 20 0 (Some [''b'']) None None) = [''p2'']"
  by (simp add: feed_defs example_defs match_count_def)

text \<open>
  C3. The claim: a post carrying a tag of the request's \<open>excludeTagIds\<close> or of the
  viewer's stored exclusions never appears, the two sets being additive.
  \<open>getPosts_viewer_exclusion\<close> shows the stored exclusions always apply for a viewer, and
  \<open>getPosts_request_exclusion\<close> shows the request's exclusions apply without one. When
  both are present the condition built from \<open>excludeTagIds\<close> is replaced by the viewer's:
  on \<open>db_feed\<close> the viewer \<open>u2\<close> excludes tag \<open>b\<close> in the request and still receives \<open>p2\<close>,
  which carries \<open>b\<close>; the same request without a viewer returns \<open>p1\<close> alone.
\<close>

theorem getPosts_request_exclusion_replaced:
  "map (\<lambda>e. (post_key e, map t_id (pw_tags e)))
       (getPosts db_feed 20 0 None (Some ''u2'') (Some [''b'']))
     = [(''p2'', [''a'', ''b'']), (''p1'', [''a''])]
   \<and> map (\<lambda>e. (post_key e, map t_id (pw_tags e)))
       (getPosts db_feed 20 0 None None (Some [''b'']))
     = [(''p1'', [''a''])]"
  by (simp add: feed_defs example_defs)

section \<open>The single-post read\<close>

text \<open>
  C10. \<open>getPost\<close> applies no exclusion: for every viewer and every existing post it
  returns that post, and its result does not depend on the table of stored exclusions.
\<close>

theorem getPost_ignores_exclusions:
  assumes "p \<in> set (posts d)"
  shows "(\<exists>r. getPost d (p_id p) userId = Some r \<and> post_key r = p_id p
              \<and> pw_post r \<in> set (posts d))
         \<and> getPost (d\<lparr>userExcludeTags := xs\<rparr>) (p_id p) userId = getPost d (p_id p) userId"
proof
  let ?rows = "filter (\<lambda>r. p_id (r_post r) = p_id p) (q_rows (base_query d userId))"
  have results:
    "where_rows (set_where (base_query d userId) (\<lambda>r. p_id (r_post r) = p_id p)) = ?rows"
    by (simp add: where_rows_def set_where_def)
  from assms have "p \<in> r_post ` set (q_rows (base_query d userId))"
    by (simp add: base_query_posts)
  then obtain r where "r \<in> set (q_rows (base_query d userId))" "r_post r = p" by auto
  then have "r \<in> set ?rows" by simp
  then obtain r0 rest where rows: "?rows = r0 # rest" by (cases ?rows) auto
  then have "r0 \<in> set ?rows" by simp
  then have r0: "p_id (r_post r0) = p_id p" "r0 \<in> set (q_rows (base_query d userId))" by auto
  then have "r_post r0 \<in> set (posts d)" using base_query_posts[of d userId] by blast
  with r0 rows results
  show "\<exists>r. getPost d (p_id p) userId = Some r \<and> post_key r = p_id p
             \<and> pw_post r \<in> set (posts d)"
    by (simp add: getPost_def foldl_push_tag_post push_tag_post split: option.splits)
  show "getPost (d\<lparr>userExcludeTags := xs\<rparr>) (p_id p) userId = getPost d (p_id p) userId"
    by (simp add: getPost_def base_query_userExcludeTags)
qed

text \<open>
  On \<open>db_zoned\<close> the viewer \<open>u2\<close> has excluded tag \<open>a\<close>: the feed of \<open>u2\<close> is empty, and
  \<open>getPost\<close> still returns \<open>p1\<close> with its tag \<open>a\<close>.
\<close>

theorem getPost_ignores_exclusions_witness:
  "post1 \<in> set (posts db_zoned)
   \<and> excludedTagIds db_zoned ''u2'' = [''a'']
   \<and> getPosts db_zoned 20 0 None (Some ''u2'') None = []
   \<and> (\<exists>r. getPost db_zoned ''p1'' (Some ''u2'') = Some r \<and> post_key r = ''p1''
           \<and> map t_id (pw_tags r) = [''a''])"
  using getPost_ignores_exclusions[of post1 db_zoned "Some ''u2''" "[]"]
  by (simp add: feed_defs example_defs db_zoned_def getPost_def)

section \<open>Tags\<close>

lemma map_of_tagCategoryEnum:
  "(category, c) \<in> set tagCategoryEnum \<longleftrightarrow> map_of tagCategoryEnum category = Some c"
proof -
  have "distinct (map fst tagCategoryEnum)"
    by (simp add: tagCategoryEnum_def label_classification_def label_angle_def label_part_def
        label_free_def)
  then show ?thesis by (metis map_of_SomeD map_of_is_SomeI)
qed

text \<open>
  C9. \<open>getTagsByCategory\<close> returns the tags of the category ordered by name, and fails
  for every category that is not one of the four labels of the enum. The failure is the
  store's: it rejects the text when it converts it to the enum type.
\<close>

theorem getTagsByCategory_sorted_or_rejected:
  "(category \<notin> fst ` set tagCategoryEnum \<longrightarrow>
      getTagsByCategory d category = Inl (InvalidEnumValue category))
   \<and> (\<forall>c. (category, c) \<in> set tagCategoryEnum \<longrightarrow>
        (\<exists>ts. getTagsByCategory d category = Inr ts \<and> sorted (map t_name ts)
              \<and> mset ts = mset (filter (\<lambda>t. t_category t = c) (tags d))))
   \<and> length tagCategoryEnum = 4"
proof (intro conjI allI impI)
  assume "category \<notin> fst ` set tagCategoryEnum"
  then have "map_of tagCategoryEnum category = None" by (simp add: map_of_eq_None_iff)
  then show "getTagsByCategory d category = Inl (InvalidEnumValue category)"
    by (simp add: getTagsByCategory_def)
next
  fix c assume "(category, c) \<in> set tagCategoryEnum"
  then have "map_of tagCategoryEnum category = Some c" by (simp add: map_of_tagCategoryEnum)
  then show "\<exists>ts. getTagsByCategory d category = Inr ts \<and> sorted (map t_name ts)
              \<and> mset ts = mset (filter (\<lambda>t. t_category t = c) (tags d))"
    by (simp add: getTagsByCategory_def)
next
  show "length tagCategoryEnum = 4" by (simp add: tagCategoryEnum_def)
qed

theorem getTagsByCategory_sorted_or_rejected_witness:
  "''animal'' \<notin> fst ` set tagCategoryEnum
   \<and> getTagsByCategory db_feed ''animal'' = Inl (InvalidEnumValue ''animal'')
   \<and> (label_classification, Classification) \<in> set tagCategoryEnum
   \<and> getTagsByCategory db_feed label_classification = Inr [tagC, tagA]"
  using getTagsByCategory_sorted_or_rejected[of "''animal''" db_feed]
    getTagsByCategory_sorted_or_rejected[of label_classification db_feed]
  by (simp add: example_defs getTagsByCategory_def tagCategoryEnum_def label_classification_def
      label_angle_def label_part_def label_free_def)

text \<open>
  When the list repeats no id, \<open>validatePostTags\<close> is the three checks of its contract
  (\<open>tags.id\<close> is the primary key).
\<close>

lemma validatePostTags_distinct:
  assumes "distinct tagIds" "distinct (map t_id (tags d))"
  shows "validatePostTags d tagIds \<longleftrightarrow>
           tagIds \<noteq> [] \<and> set tagIds \<subseteq> t_id ` set (tags d)
           \<and> (\<exists>t \<in> set (tags d). t_id t \<in> set tagIds \<and> t_category t = Classification)"
proof -
  let ?R = "filter (\<lambda>t. t_id t \<in> set tagIds) (tags d)"
  have "distinct (map t_id ?R)" using assms(2) by (rule distinct_map_filter)
  then have "length ?R = card (set (map t_id ?R))" by (metis distinct_card length_map)
  also have "set (map t_id ?R) = set tagIds \<inter> t_id ` set (tags d)" by auto
  finally have len: "length ?R = card (set tagIds \<inter> t_id ` set (tags d))" .
  have "card (set tagIds \<inter> t_id ` set (tags d)) = card (set tagIds)
          \<longleftrightarrow> set tagIds \<subseteq> t_id ` set (tags d)"
  proof
    assume "card (set tagIds \<inter> t_id ` set (tags d)) = card (set tagIds)"
    then have "set tagIds \<inter> t_id ` set (tags d) = set tagIds"
      by (intro card_subset_eq) auto
    then show "set tagIds \<subseteq> t_id ` set (tags d)" by blast
  next
    assume "set tagIds \<subseteq> t_id ` set (tags d)"
    then have "set tagIds \<inter> t_id ` set (tags d) = set tagIds" by blast
    then show "card (set tagIds \<inter> t_id ` set (tags d)) = card (set tagIds)" by simp
  qed
  with len assms(1)
  have eq: "length ?R = length tagIds \<longleftrightarrow> set tagIds \<subseteq> t_id ` set (tags d)"
    by (simp add: distinct_card)
  show ?thesis
    unfolding validatePostTags_def Let_def using eq
    by (auto simp: list_ex_iff)
qed

text \<open>
  C4. The claim: \<open>validatePostTags\<close> is false for the empty list, false when an id does
  not resolve, false when no resolved tag is a classification tag, and true otherwise.
  The source's check that all ids exist compares the number of rows found with the
  length of the list, so a list that names an existing tag twice is rejected: on
  \<open>db_feed\<close> the classification tag \<open>a\<close> exists, \<open>[a]\<close> is valid and \<open>[a, a]\<close> is not.
\<close>

theorem validatePostTags_rejects_duplicate_ids:
  "validatePostTags db_feed [''a'', ''a''] = False
   \<and> validatePostTags db_feed [''a''] = True
   \<and> tagA \<in> set (tags db_feed) \<and> t_id tagA = ''a'' \<and> t_category tagA = Classification"
  by (simp add: validatePostTags_def example_defs)

text \<open>A caller that runs alone behaves as \<open>getOrCreateTag\<close>.\<close>

lemma run_single_call:
  assumes "c_state c = Selecting"
  shows "run_schedule [0, 0] ([c], d) =
           ([c\<lparr>c_state := Returned (fst (getOrCreateTag d (c_name c) (c_category c)
                                             (c_newId c) (c_now c)))\<rparr>],
            snd (getOrCreateTag d (c_name c) (c_category c) (c_newId c) (c_now c)))"
  using assms
  by (auto simp: goc_step_def getOrCreateTag_def split: option.splits prod.splits)

lemma run_sequential_calls:
  "length (tag_rows (snd (run_schedule [0, 0, 1, 1] (two_calls, db_empty))) ''dog'' Classification)
     = 1"
  by (simp add: two_calls_def db_empty_def goc_step_def select_tag_def createTag_def
      tag_rows_def Let_def)

text \<open>
  C5. The claim: after any number of concurrent calls of \<open>getOrCreateTag\<close> for one name
  and category, exactly one row exists for the pair. The source selects, then inserts,
  and \<open>tags\<close> has no unique constraint on the pair (\<open>unique_name_category\<close> is declared
  with \<open>index\<close>). When both callers select before either inserts, both find nothing and both
  insert: on the empty database the schedule \<open>[0, 1, 0, 1]\<close> ends with both calls
  returned and two rows for the pair.
\<close>

theorem getOrCreateTag_race_creates_two_rows:
  "all_returned (fst (run_schedule [0, 1, 0, 1] (two_calls, db_empty)))
   \<and> length (tag_rows (snd (run_schedule [0, 1, 0, 1] (two_calls, db_empty)))
               ''dog'' Classification) = 2"
  by (simp add: two_calls_def db_empty_def goc_step_def select_tag_def createTag_def
      tag_rows_def all_returned_def Let_def)

section \<open>Creating and deleting posts\<close>

lemma insert_post_Inr:
  "insert_post d p = Inr d' \<Longrightarrow> d' = d\<lparr>posts := posts d @ [p]\<rparr>"
  by (auto simp: insert_post_def split: if_splits)

lemma insert_postTags_Inr:
  "insert_postTags d pts = Inr d' \<Longrightarrow> d' = d\<lparr>postTags := postTags d @ pts\<rparr>"
  by (auto simp: insert_postTags_def split: if_splits)

lemma insert_postTags_missing_tag:
  "pt \<in> set pts \<Longrightarrow> pt_tagId pt \<notin> t_id ` set (tags d) \<Longrightarrow>
     insert_postTags d pts = Inl ForeignKeyViolation"
  by (auto simp: insert_postTags_def list_all_iff)

lemma insert_post_tags: "insert_post d p = Inr d' \<Longrightarrow> tags d' = tags d"
  by (auto dest: insert_post_Inr)

text \<open>
  C6. \<open>createPost\<close> is atomic: when it fails the database is unchanged; when it succeeds
  the database has gained the post row and one association row per tag id and nothing
  else; and it fails, leaving no post row behind, whenever an association row cannot be
  inserted because its tag does not exist.
\<close>

theorem createPost_all_or_nothing:
  "(case createPost d post tagIds newId now of
      (Inl e, d') \<Rightarrow> d' = d
    | (Inr p, d') \<Rightarrow>
        p = \<lparr>p_id = newId, p_userId = ip_userId post, p_imageUrl = ip_imageUrl post,
             p_caption = ip_caption post, p_createdAt = now\<rparr>
        \<and> d' = d\<lparr>posts := posts d @ [p],
                  postTags := postTags d
                     @ map (\<lambda>tagId. \<lparr>pt_postId = newId, pt_tagId = tagId\<rparr>) tagIds\<rparr>)
   \<and> ((\<exists>tagId \<in> set tagIds. tagId \<notin> t_id ` set (tags d)) \<longrightarrow>
         isl (fst (createPost d post tagIds newId now))
         \<and> snd (createPost d post tagIds newId now) = d)"
proof
  show "case createPost d post tagIds newId now of
      (Inl e, d') \<Rightarrow> d' = d
    | (Inr p, d') \<Rightarrow>
        p = \<lparr>p_id = newId, p_userId = ip_userId post, p_imageUrl = ip_imageUrl post,
             p_caption = ip_caption post, p_createdAt = now\<rparr>
        \<and> d' = d\<lparr>posts := posts d @ [p],
                  postTags := postTags d
                     @ map (\<lambda>tagId. \<lparr>pt_postId = newId, pt_tagId = tagId\<rparr>) tagIds\<rparr>"
    by (auto simp: createPost_def transaction_def createPost_body_def Let_def
        split: sum.splits prod.splits if_splits dest!: insert_post_Inr insert_postTags_Inr)
  show "(\<exists>tagId \<in> set tagIds. tagId \<notin> t_id ` set (tags d)) \<longrightarrow>
         isl (fst (createPost d post tagIds newId now))
         \<and> snd (createPost d post tagIds newId now) = d"
  proof
    assume "\<exists>tagId \<in> set tagIds. tagId \<notin> t_id ` set (tags d)"
    then obtain tagId where t: "tagId \<in> set tagIds" "tagId \<notin> t_id ` set (tags d)" by blast
    then have ne: "length tagIds > 0" by (cases tagIds) auto
    let ?pts = "map (\<lambda>tagId. \<lparr>pt_postId = newId, pt_tagId = tagId\<rparr>) tagIds"
    have fail: "insert_postTags tx1 ?pts = Inl ForeignKeyViolation" if "tags tx1 = tags d" for tx1
      using t that
        insert_postTags_missing_tag[of "\<lparr>pt_postId = newId, pt_tagId = tagId\<rparr>" ?pts tx1]
      by auto
    show "isl (fst (createPost d post tagIds newId now))
          \<and> snd (createPost d post tagIds newId now) = d"
      using ne fail insert_post_tags
      by (auto simp: createPost_def transaction_def createPost_body_def Let_def
          split: sum.splits prod.splits)
  qed
qed

text \<open>
  On \<open>db_feed\<close>: with the unknown tag \<open>zz\<close> the call fails and the database is the one
  before, although the post row had been inserted inside the transaction; with tags
  \<open>a\<close> and \<open>b\<close> the post is there.
\<close>

theorem createPost_all_or_nothing_witness:
  "(\<exists>tagId \<in> set [''a'', ''zz'']. tagId \<notin> t_id ` set (tags db_feed))
   \<and> fst (createPost_body new_post [''a'', ''zz''] ''p3'' 30 db_feed) = Inl ForeignKeyViolation
   \<and> map p_id (posts (snd (createPost_body new_post [''a'', ''zz''] ''p3'' 30 db_feed)))
        = [''p1'', ''p2'', ''p3'']
   \<and> createPost db_feed new_post [''a'', ''zz''] ''p3'' 30 = (Inl ForeignKeyViolation, db_feed)
   \<and> map p_id (posts (snd (createPost db_feed new_post [''a'', ''b''] ''p3'' 30)))
        = [''p1'', ''p2'', ''p3'']"
  using createPost_all_or_nothing[where d = db_feed and post = new_post
      and tagIds = "[''a'', ''zz'']" and newId = "''p3''" and now = 30]
    createPost_all_or_nothing[where d = db_feed and post = new_post
      and tagIds = "[''a'', ''b'']" and newId = "''p3''" and now = 30]
  by (simp add: example_defs new_post_def createPost_def transaction_def createPost_body_def
      insert_post_def insert_postTags_def Let_def)

text \<open>
  C7. \<open>deletePost\<close> returns true exactly when a post with that id and that owner
  exists, which is exactly when a post row is removed; the rows removed are those with
  that id and owner; and when it returns false the database, the targeted post included,
  is unchanged.
\<close>

theorem deletePost_owner_only:
  "(fst (deletePost d ident userId) \<longleftrightarrow>
      (\<exists>p \<in> set (posts d). p_id p = ident \<and> p_userId p = userId))
   \<and> posts (snd (deletePost d ident userId)) =
        filter (\<lambda>p. \<not> (p_id p = ident \<and> p_userId p = userId)) (posts d)
   \<and> (fst (deletePost d ident userId) \<longleftrightarrow> posts (snd (deletePost d ident userId)) \<noteq> posts d)
   \<and> (\<not> fst (deletePost d ident userId) \<longrightarrow> snd (deletePost d ident userId) = d)"
proof (intro conjI)
  show a: "fst (deletePost d ident userId) \<longleftrightarrow>
      (\<exists>p \<in> set (posts d). p_id p = ident \<and> p_userId p = userId)"
    by (auto simp: deletePost_def Let_def filter_empty_conv)
  show b: "posts (snd (deletePost d ident userId)) =
        filter (\<lambda>p. \<not> (p_id p = ident \<and> p_userId p = userId)) (posts d)"
    by (simp add: deletePost_def Let_def)
  show "fst (deletePost d ident userId) \<longleftrightarrow> posts (snd (deletePost d ident userId)) \<noteq> posts d"
    unfolding a b by (auto simp: filter_id_conv)
  show "\<not> fst (deletePost d ident userId) \<longrightarrow> snd (deletePost d ident userId) = d"
  proof
    assume "\<not> fst (deletePost d ident userId)"
    then have none: "filter (\<lambda>p. p_id p = ident \<and> p_userId p = userId) (posts d) = []"
      by (simp add: deletePost_def Let_def)
    then have "filter (\<lambda>p. \<not> (p_id p = ident \<and> p_userId p = userId)) (posts d) = posts d"
      by (simp add: filter_id_conv filter_empty_conv)
    with none show "snd (deletePost d ident userId) = d"
      by (simp add: deletePost_def Let_def)
  qed
qed

text \<open>On \<open>db_feed\<close>, \<open>p1\<close> belongs to \<open>u1\<close>: \<open>u2\<close> deletes nothing, \<open>u1\<close> deletes it.\<close>

theorem deletePost_owner_only_witness:
  "fst (deletePost db_feed ''p1'' ''u2'') = False
   \<and> snd (deletePost db_feed ''p1'' ''u2'') = db_feed
   \<and> fst (deletePost db_feed ''p1'' ''u1'') = True
   \<and> posts (snd (deletePost db_feed ''p1'' ''u1'')) = [post2]"
  using deletePost_owner_only[of db_feed "''p1''" "''u2''"]
    deletePost_owner_only[of db_feed "''p1''" "''u1''"]
  by (simp add: example_defs)

section \<open>Favorites\<close>

text \<open>With no unique constraint to collide on, every call with existing ids adds a row.\<close>

lemma addFavorite_appends:
  assumes "userId \<in> set (map u_id (users d))" "postId \<in> set (map p_id (posts d))"
  shows "addFavorite d userId postId now =
           (Inr (), d\<lparr>favorites := favorites d @
                         [\<lparr>f_userId = userId, f_postId = postId, f_createdAt = now\<rparr>]\<rparr>)"
  using assms by (simp add: addFavorite_def conflicts_def favorites_unique_def)

lemma addFavorite_twice_rows:
  assumes "userId \<in> set (map u_id (users d))" "postId \<in> set (map p_id (posts d))"
  shows "length (favorite_rows
                   (snd (addFavorite (snd (addFavorite d userId postId now)) userId postId now'))
                   userId postId)
           = length (favorite_rows d userId postId) + 2"
  using assms by (simp add: addFavorite_appends favorite_rows_def)

text \<open>
  C8. The claim: calling \<open>addFavorite\<close> twice for one user and post leaves exactly one
  favorite row, the second call being a silent no-op. The source inserts with
  \<open>onConflictDoNothing()\<close>, and the table has no unique constraint for the insert to
  conflict with (\<open>favorites_pk\<close> is declared with \<open>index\<close>): on \<open>db_feed\<close> both calls succeed
  and two rows for the pair exist afterwards.
\<close>

theorem addFavorite_twice_two_rows:
  "fst (addFavorite db_feed ''u2'' ''p1'' 1) = Inr ()
   \<and> fst (addFavorite (snd (addFavorite db_feed ''u2'' ''p1'' 1)) ''u2'' ''p1'' 2) = Inr ()
   \<and> length (favorite_rows
               (snd (addFavorite (snd (addFavorite db_feed ''u2'' ''p1'' 1)) ''u2'' ''p1'' 2))
               ''u2'' ''p1'') = 2"
  by (simp add: addFavorite_def conflicts_def favorites_unique_def favorite_rows_def
      example_defs)

end
